theory Spec2Isabelle
  imports Complex_Main "HOL-Library.Word"
begin

section \<open>Data model\<close>

text \<open>
  A face encoding is the vector produced by the embedding capability. Python floats
  are modelled as reals: rounding and NaN are outside this development.
\<close>

type_synonym encoding = "real list"

text \<open>
  Ids are numpy \<^verbatim>\<open>int64\<close> values: 64-bit words read as signed numbers with \<open>sint\<close>,
  so that \<^verbatim>\<open>max() + 1\<close> wraps as it does in the source.
\<close>

type_synonym int64 = "64 word"

text \<open>
  A value of one of the six text columns, as \<^verbatim>\<open>pandas\<close> holds it: a string, an integer,
  the missing value \<^verbatim>\<open>NaN\<close>, or \<open>Unmodelled\<close>: a value that pandas infers as a
  float or a boolean, or whose text this development does not determine. Nothing is
  proved about what an \<open>Unmodelled\<close> value is.
\<close>

datatype cell = Text string | Num int | NaN | Unmodelled

text \<open>
  One row of the table of \<^verbatim>\<open>person_details.csv\<close>, with the columns \<^verbatim>\<open>_init_csv\<close>
  creates; also the dictionary \<^verbatim>\<open>person_data\<close>. The column \<^verbatim>\<open>id\<close> is the field
  \<open>id'\<close>.
\<close>

record person =
  id' :: int64
  name :: cell
  class_name :: cell
  roll_number :: cell
  email :: cell
  phone :: cell
  registration_date :: cell

datatype error = IOError | IndexError

text \<open>
  Every function that touches the disk takes an \<open>io\<close>: \<open>io k\<close> says that the
  \<open>k\<close>-th storage operation of the call raises, before it has touched its file. A
  write that fails after it has truncated its file is not modelled. \<open>reliable\<close> is the
  disk on which nothing raises.
\<close>

type_synonym io = "nat \<Rightarrow> bool"

definition reliable :: io where
  "reliable = (\<lambda>k. False)"

text \<open>
  \<^verbatim>\<open>DataManager\<close> and \<^verbatim>\<open>SimpleDataManager\<close> hold the same state: the table that was
  last written to the CSV file with \<^verbatim>\<open>to_csv\<close>, the dictionary stored in
  \<^verbatim>\<open>face_encodings.pkl\<close>, and the dictionary \<^verbatim>\<open>self.encodings\<close> in memory. A Python
  dictionary keeps insertion order, so it is an association list.
\<close>

record data_manager =
  csv :: "person list"
  pkl :: "(int64 \<times> encoding) list"
  encodings :: "(int64 \<times> encoding) list"

text \<open>\<^verbatim>\<open>d[k] = v\<close>: an existing key keeps its position, a new key goes last.\<close>

fun dict_set :: "'k \<Rightarrow> 'v \<Rightarrow> ('k \<times> 'v) list \<Rightarrow> ('k \<times> 'v) list" where
  "dict_set k v [] = [(k, v)]"
| "dict_set k v ((k', v') # d) = (if k = k' then (k, v) # d else (k', v') # dict_set k v d)"

text \<open>\<^verbatim>\<open>__init__\<close>: a missing CSV file is created empty, a missing pickle is \<^verbatim>\<open>{}\<close>.\<close>

definition DataManager_init :: "person list \<Rightarrow> (int64 \<times> encoding) list \<Rightarrow> data_manager" where
  "DataManager_init rows stored = \<lparr>csv = rows, pkl = stored, encodings = stored\<rparr>"

section \<open>The CSV text: what \<^verbatim>\<open>pandas\<close> writes and reads back\<close>

text \<open>
  The \<^verbatim>\<open>pandas\<close> library is not part of the repository. \<^verbatim>\<open>to_csv\<close> writes every
  value as text and \<^verbatim>\<open>read_csv\<close> infers the type of each column from its text again.
  The model keeps to what holds for the default reader in every version of the library:
  a cell whose text is one of the missing-value markers is read as \<^verbatim>\<open>NaN\<close>; a column
  in which every cell is a decimal integer in the range of \<^verbatim>\<open>int64\<close> is read as
  integers; a column that holds a cell which is plainly text is read as strings, each
  string as it was written. Every other case is \<open>Unmodelled\<close>.
\<close>

text \<open>Markers that every version of the reader takes for a missing value.\<close>

definition na_values :: "string list" where
  "na_values =
     [[], ''#N/A'', ''#N/A N/A'', ''#NA'', ''-1.#IND'', ''-1.#QNAN'', ''-NaN'', ''-nan'',
      ''1.#IND'', ''1.#QNAN'', ''N/A'', ''NA'', ''NULL'', ''NaN'', ''n/a'', ''nan'', ''null'']"

definition is_digit :: "char \<Rightarrow> bool" where
  "is_digit c = (c \<in> set ''0123456789'')"

definition digits_value :: "string \<Rightarrow> int" where
  "digits_value ds = foldl (\<lambda>n c. 10 * n + (of_char c - 48)) 0 ds"

text \<open>A decimal integer, with an optional minus sign, in the range of \<^verbatim>\<open>int64\<close>.\<close>

definition int_literal :: "string \<Rightarrow> int option" where
  "int_literal s =
     (let negative = (s \<noteq> [] \<and> hd s = CHR ''-'');
          ds = (if negative then tl s else s);
          n = (if negative then - digits_value ds else digits_value ds)
      in if ds \<noteq> [] \<and> list_all is_digit ds \<and> - (2 ^ 63) \<le> n \<and> n < 2 ^ 63
         then Some n else None)"

definition lower :: "char \<Rightarrow> char" where
  "lower c =
     (case map_of (zip ''ABCDEFGHIJKLMNOPQRSTUVWXYZ'' ''abcdefghijklmnopqrstuvwxyz'') c of
        None \<Rightarrow> c
      | Some l \<Rightarrow> l)"

text \<open>
  Texts that the reader may take for a number, a boolean or a missing value, compared
  without case, signs and blanks.
\<close>

definition special_tokens :: "string list" where
  "special_tokens =
     [''true'', ''false'', ''inf'', ''infinity'', ''nan'', ''none'', ''<na>'', ''null'', ''na'',
      ''n/a'', ''#n/a'', ''#n/an/a'', ''#na'', ''1.#ind'', ''1.#qnan'']"

definition squash :: "string \<Rightarrow> string" where
  "squash s = map lower (filter (\<lambda>c. c \<notin> set '' +-'') s)"

definition printable :: "char \<Rightarrow> bool" where
  "printable c = (32 \<le> (of_char c :: nat) \<and> (of_char c :: nat) < 127)"

definition numeric_char :: "char \<Rightarrow> bool" where
  "numeric_char c = (c \<in> set ''0123456789+-.eE '')"

text \<open>
  Plainly text: printable ASCII that is not one of the special tokens and holds a
  character that no number holds, or letters but no digit.
\<close>

definition plain_text :: "string \<Rightarrow> bool" where
  "plain_text s =
     (list_all printable s \<and> squash s \<notin> set special_tokens
      \<and> (list_ex (\<lambda>c. \<not> numeric_char c) s
           \<or> (list_ex (\<lambda>c. c \<in> set ''eE'') s \<and> \<not> list_ex is_digit s)))"

datatype kind = Missing | Integer int | Plain | Other

definition kind_of :: "string \<Rightarrow> kind" where
  "kind_of s =
     (if s \<in> set na_values then Missing
      else case int_literal s of
             Some n \<Rightarrow> Integer n
           | None \<Rightarrow> if plain_text s then Plain else Other)"

text \<open>What \<^verbatim>\<open>to_csv\<close> writes for a value; \<open>None\<close> when the model does not determine it.\<close>

fun show_nat :: "nat \<Rightarrow> string" where
  "show_nat n =
     (if n < 10 then [''0123456789'' ! n]
      else show_nat (n div 10) @ [''0123456789'' ! (n mod 10)])"

declare show_nat.simps [simp del]

definition show_int :: "int \<Rightarrow> string" where
  "show_int i = (if i < 0 then CHR ''-'' # show_nat (nat (- i)) else show_nat (nat i))"

fun render :: "cell \<Rightarrow> string option" where
  "render (Text s) = Some s"
| "render (Num n) = Some (show_int n)"
| "render NaN = Some []"
| "render Unmodelled = None"

definition cell_kind :: "cell \<Rightarrow> kind" where
  "cell_kind c = (case render c of None \<Rightarrow> Other | Some s \<Rightarrow> kind_of s)"

text \<open>One column, from the values written to the values read back.\<close>

definition infer_column :: "cell list \<Rightarrow> cell list" where
  "infer_column column =
     (if list_all (\<lambda>c. case cell_kind c of Integer n \<Rightarrow> True | _ \<Rightarrow> False) column
      then map (\<lambda>c. case cell_kind c of Integer n \<Rightarrow> Num n | _ \<Rightarrow> Unmodelled) column
      else if list_ex (\<lambda>c. cell_kind c = Plain) column
      then map (\<lambda>c. case cell_kind c of
                       Missing \<Rightarrow> NaN
                     | Other \<Rightarrow> Unmodelled
                     | _ \<Rightarrow> (case render c of None \<Rightarrow> Unmodelled | Some s \<Rightarrow> Text s))
             column
      else map (\<lambda>c. case cell_kind c of Missing \<Rightarrow> NaN | _ \<Rightarrow> Unmodelled) column)"

text \<open>
  The table \<^verbatim>\<open>read_csv\<close> returns for the table that was written: the ids as they are,
  each text column inferred on its own.
\<close>

definition reread :: "person list \<Rightarrow> person list" where
  "reread rows =
     map (\<lambda>i. (rows ! i)
            \<lparr>name := infer_column (map name rows) ! i,
             class_name := infer_column (map class_name rows) ! i,
             roll_number := infer_column (map roll_number rows) ! i,
             email := infer_column (map email rows) ! i,
             phone := infer_column (map phone rows) ! i,
             registration_date := infer_column (map registration_date rows) ! i\<rparr>)
       [0..<length rows]"

text \<open>
  \<^verbatim>\<open>person.iloc[0].to_dict()\<close>: a row that holds a string comes back value by value; of a
  row without one pandas makes a row of floats, so its integers are not determined here.
\<close>

definition is_text :: "cell \<Rightarrow> bool" where
  "is_text c = (case c of Text s \<Rightarrow> True | _ \<Rightarrow> False)"

definition unnum :: "cell \<Rightarrow> cell" where
  "unnum c = (case c of Num n \<Rightarrow> Unmodelled | _ \<Rightarrow> c)"

definition row_to_dict :: "person \<Rightarrow> person" where
  "row_to_dict row =
     (if is_text (name row) \<or> is_text (class_name row) \<or> is_text (roll_number row)
         \<or> is_text (email row) \<or> is_text (phone row) \<or> is_text (registration_date row)
      then row
      else row\<lparr>name := unnum (name row), class_name := unnum (class_name row),
               roll_number := unnum (roll_number row), email := unnum (email row),
               phone := unnum (phone row),
               registration_date := unnum (registration_date row)\<rparr>)"

section \<open>Gallery store: \<^verbatim>\<open>data_manager.py\<close>\<close>

text \<open>\<^verbatim>\<open>pd.read_csv(self.csv_path)\<close>\<close>

definition read_csv :: "bool \<Rightarrow> data_manager \<Rightarrow> error + person list" where
  "read_csv fails dm = (if fails then Inl IOError else Inr (reread (csv dm)))"

text \<open>
  \<^verbatim>\<open>df['id'].max() + 1\<close>: the largest id as a signed number, and an addition in
  \<^verbatim>\<open>int64\<close>.
\<close>

definition get_next_id :: "io \<Rightarrow> data_manager \<Rightarrow> error + int64" where
  "get_next_id io dm =
     (case read_csv (io 0) dm of
        Inl err \<Rightarrow> Inl err
      | Inr df \<Rightarrow>
          if df = [] then Inr 1
          else Inr (word_of_int (Max (set (map (\<lambda>row. sint (id' row)) df))) + 1))"

text \<open>
  \<^verbatim>\<open>add_person\<close>: operation 0 is the read of \<^verbatim>\<open>get_next_id\<close>, 1 the second read,
  2 \<^verbatim>\<open>to_csv\<close>, 3 \<^verbatim>\<open>_save_encodings\<close>. The table written is the table that was read
  with the new row appended. The dictionary in memory is updated before the pickle is
  written.
\<close>

definition add_person ::
  "io \<Rightarrow> data_manager \<Rightarrow> person \<Rightarrow> encoding \<Rightarrow> (error + int64) \<times> data_manager" where
  "add_person io dm person_data face_encoding =
     (case get_next_id io dm of
        Inl err \<Rightarrow> (Inl err, dm)
      | Inr person_id \<Rightarrow>
          (case read_csv (io 1) dm of
             Inl err \<Rightarrow> (Inl err, dm)
           | Inr df \<Rightarrow>
               if io 2 then (Inl IOError, dm)
               else
                 let dm1 = dm\<lparr>csv := df @ [person_data\<lparr>id' := person_id\<rparr>]\<rparr>;
                     dm2 = dm1\<lparr>encodings := dict_set person_id face_encoding (encodings dm1)\<rparr>
                 in if io 3 then (Inl IOError, dm2)
                    else (Inr person_id, dm2\<lparr>pkl := encodings dm2\<rparr>)))"

text \<open>\<^verbatim>\<open>df[df['id'] == person_id]\<close>, then the first row if there is one.\<close>

definition get_person_by_id :: "io \<Rightarrow> data_manager \<Rightarrow> int64 \<Rightarrow> error + person option" where
  "get_person_by_id io dm person_id =
     (case read_csv (io 0) dm of
        Inl err \<Rightarrow> Inl err
      | Inr df \<Rightarrow> Inr (map_option row_to_dict (find (\<lambda>row. id' row = person_id) df)))"

text \<open>The pair \<^verbatim>\<open>(encodings_list, person_ids)\<close>, in the dictionary's order.\<close>

definition get_all_encodings :: "data_manager \<Rightarrow> encoding list \<times> int64 list" where
  "get_all_encodings dm = (map snd (encodings dm), map fst (encodings dm))"

definition get_person_count :: "data_manager \<Rightarrow> nat" where
  "get_person_count dm = length (encodings dm)"

section \<open>Gallery store: \<^verbatim>\<open>simple_data_manager.py\<close>\<close>

text \<open>
  The same operations, each inside \<^verbatim>\<open>try ... except Exception\<close>: nothing is raised,
  a failure is printed and a default is returned.
\<close>

definition simple_get_next_id :: "io \<Rightarrow> data_manager \<Rightarrow> int64" where
  "simple_get_next_id io dm =
     (case read_csv (io 0) dm of
        Inl err \<Rightarrow> 1
      | Inr df \<Rightarrow>
          if df = [] then 1
          else word_of_int (Max (set (map (\<lambda>row. sint (id' row)) df))) + 1)"

definition simple_save_encodings :: "bool \<Rightarrow> data_manager \<Rightarrow> data_manager" where
  "simple_save_encodings fails dm = (if fails then dm else dm\<lparr>pkl := encodings dm\<rparr>)"

definition simple_add_person ::
  "io \<Rightarrow> data_manager \<Rightarrow> person \<Rightarrow> encoding \<Rightarrow> int64 \<times> data_manager" where
  "simple_add_person io dm person_data face_encoding =
     (let person_id = simple_get_next_id io dm
      in case read_csv (io 1) dm of
           Inl err \<Rightarrow> (- 1, dm)
         | Inr df \<Rightarrow>
             if io 2 then (- 1, dm)
             else
               let dm1 = dm\<lparr>csv := df @ [person_data\<lparr>id' := person_id\<rparr>]\<rparr>;
                   dm2 = dm1\<lparr>encodings := dict_set person_id face_encoding (encodings dm1)\<rparr>
               in (person_id, simple_save_encodings (io 3) dm2))"

definition simple_get_person_by_id :: "io \<Rightarrow> data_manager \<Rightarrow> int64 \<Rightarrow> person option" where
  "simple_get_person_by_id io dm person_id =
     (case read_csv (io 0) dm of
        Inl err \<Rightarrow> None
      | Inr df \<Rightarrow> map_option row_to_dict (find (\<lambda>row. id' row = person_id) df))"


section \<open>Matcher: \<^verbatim>\<open>recognize.py\<close>\<close>

text \<open>
  The \<^verbatim>\<open>face_recognition\<close> library is not part of the repository. Its two functions
  used by the matcher are modelled by what the library documents and the specification
  repeats: \<^verbatim>\<open>face_distance\<close> is the Euclidean distance from every known encoding to the
  probe, \<^verbatim>\<open>compare_faces\<close> is \<^verbatim>\<open>face_distance(...) <= tolerance\<close>. All encodings have
  the dimension the embedding capability fixes.
\<close>

definition euclidean :: "encoding \<Rightarrow> encoding \<Rightarrow> real" where
  "euclidean a b = sqrt (sum_list (map (\<lambda>(x, y). (x - y)\<^sup>2) (zip a b)))"

definition face_distance :: "encoding list \<Rightarrow> encoding \<Rightarrow> real list" where
  "face_distance face_encodings face_to_compare =
     map (\<lambda>e. euclidean e face_to_compare) face_encodings"

definition compare_faces :: "encoding list \<Rightarrow> encoding \<Rightarrow> real \<Rightarrow> bool list" where
  "compare_faces known_face_encodings face_encoding_to_check tol =
     map (\<lambda>d. d \<le> tol) (face_distance known_face_encodings face_encoding_to_check)"

text \<open>
  \<^verbatim>\<open>np.argmin\<close>: the index of the first occurrence of the minimum. It is only called
  on a list that is not empty.
\<close>

fun argmin :: "real list \<Rightarrow> nat" where
  "argmin [] = 0"
| "argmin [x] = 0"
| "argmin (x # y # ys) = (let i = argmin (y # ys) in if x \<le> (y # ys) ! i then 0 else Suc i)"

text \<open>\<^verbatim>\<open>xs[i]\<close> for an index that is not negative.\<close>

definition list_get :: "'a list \<Rightarrow> nat \<Rightarrow> error + 'a" where
  "list_get xs i = (if i < length xs then Inr (xs ! i) else Inl IndexError)"

record face_recognizer =
  tolerance :: real
  data_manager :: data_manager
  known_encodings :: "encoding list"
  known_person_ids :: "int64 list"
  known_names :: "cell list"
  known_classes :: "cell list"
  known_roll_numbers :: "cell list"

datatype message = NoRegisteredFaces | LoadedFaces nat | ErrorLoadingFaces

text \<open>
  The \<^verbatim>\<open>for person_id in self.known_person_ids\<close> loop of \<^verbatim>\<open>load_known_faces\<close>. Read
  \<open>k\<close> is the one made for the \<open>k\<close>-th id. An id without a row appends nothing; a read
  that raises leaves what was appended so far.
\<close>

fun load_details ::
  "io \<Rightarrow> nat \<Rightarrow> int64 list \<Rightarrow> face_recognizer \<Rightarrow> error option \<times> face_recognizer" where
  "load_details io k [] fr = (None, fr)"
| "load_details io k (person_id # ids) fr =
     (case get_person_by_id (\<lambda>_. io k) (data_manager fr) person_id of
        Inl err \<Rightarrow> (Some err, fr)
      | Inr None \<Rightarrow> load_details io (Suc k) ids fr
      | Inr (Some person_data) \<Rightarrow>
          load_details io (Suc k) ids
            (fr\<lparr>known_names := known_names fr @ [name person_data],
                known_classes := known_classes fr @ [class_name person_data],
                known_roll_numbers := known_roll_numbers fr @ [roll_number person_data]\<rparr>))"

text \<open>The messages are what the method prints; it returns nothing else to its caller.\<close>

definition load_known_faces :: "io \<Rightarrow> face_recognizer \<Rightarrow> message list \<times> face_recognizer" where
  "load_known_faces io fr =
     (let (encs, ids) = get_all_encodings (data_manager fr);
          fr1 = fr\<lparr>known_encodings := encs, known_person_ids := ids\<rparr>
      in if encs = [] then ([NoRegisteredFaces], fr1)
         else
           (case load_details io 0 ids fr1 of
              (Some err, fr2) \<Rightarrow>
                ([ErrorLoadingFaces], fr2\<lparr>known_encodings := [], known_person_ids := []\<rparr>)
            | (None, fr2) \<Rightarrow> ([LoadedFaces (length (known_encodings fr2))], fr2)))"

definition FaceRecognizer_init :: "io \<Rightarrow> real \<Rightarrow> data_manager \<Rightarrow> message list \<times> face_recognizer" where
  "FaceRecognizer_init io tol dm =
     load_known_faces io
       \<lparr>tolerance = tol, data_manager = dm, known_encodings = [], known_person_ids = [],
        known_names = [], known_classes = [], known_roll_numbers = []\<rparr>"

text \<open>The tuple \<^verbatim>\<open>(name, class_name, roll_number, confidence)\<close>.\<close>

type_synonym face_info = "cell \<times> cell \<times> cell \<times> real"

definition unknown_person :: face_info where
  "unknown_person = (Text ''Unknown Person'', Text ''Unknown'', Text ''Unknown'', 0)"

text \<open>The body of the loop over \<^verbatim>\<open>face_encodings\<close> in \<^verbatim>\<open>recognize_faces_in_frame\<close>.\<close>

definition match_face :: "face_recognizer \<Rightarrow> encoding \<Rightarrow> error + face_info" where
  "match_face fr face_encoding =
     (if known_encodings fr = [] then Inr unknown_person
      else
        let matches = compare_faces (known_encodings fr) face_encoding (tolerance fr)
        in if True \<in> set matches then
             let face_distances = face_distance (known_encodings fr) face_encoding;
                 best_match_index = argmin face_distances
             in if matches ! best_match_index then
                  let confidence = 1 - face_distances ! best_match_index
                  in (case list_get (known_names fr) best_match_index of
                        Inl err \<Rightarrow> Inl err
                      | Inr nm \<Rightarrow>
                          (case list_get (known_classes fr) best_match_index of
                             Inl err \<Rightarrow> Inl err
                           | Inr cls \<Rightarrow>
                               (case list_get (known_roll_numbers fr) best_match_index of
                                  Inl err \<Rightarrow> Inl err
                                | Inr roll \<Rightarrow> Inr (nm, cls, roll, confidence))))
                else Inr unknown_person
           else Inr unknown_person)"

fun match_faces :: "face_recognizer \<Rightarrow> encoding list \<Rightarrow> error + face_info list" where
  "match_faces fr [] = Inr []"
| "match_faces fr (face_encoding # rest) =
     (case match_face fr face_encoding of
        Inl err \<Rightarrow> Inl err
      | Inr info \<Rightarrow>
          (case match_faces fr rest of
             Inl err \<Rightarrow> Inl err
           | Inr infos \<Rightarrow> Inr (info # infos)))"

section \<open>Frame processor\<close>

text \<open>
  A box is \<^verbatim>\<open>(top, right, bottom, left)\<close>. The detection and embedding capabilities are
  parameters: \<open>locs_of frame\<close> is \<^verbatim>\<open>face_locations\<close> of the frame resized by 0.25,
  \<open>encs_of frame boxes\<close> is \<^verbatim>\<open>face_encodings\<close> of that small frame at those boxes.
\<close>

type_synonym box = "int \<times> int \<times> int \<times> int"

definition recognize_faces_in_frame ::
  "('f \<Rightarrow> box list) \<Rightarrow> ('f \<Rightarrow> box list \<Rightarrow> encoding list) \<Rightarrow> face_recognizer \<Rightarrow> 'f \<Rightarrow>
     error + (box list \<times> face_info list)" where
  "recognize_faces_in_frame locs_of encs_of fr frame =
     (let face_locations = locs_of frame;
          face_encodings = encs_of frame face_locations
      in case match_faces fr face_encodings of
           Inl err \<Rightarrow> Inl err
         | Inr face_info \<Rightarrow> Inr (face_locations, face_info))"

fun scale_up :: "box \<Rightarrow> box" where
  "scale_up (t, r, b, l) = (t * 4, r * 4, b * 4, l * 4)"

text \<open>
  \<^verbatim>\<open>draw_face_info\<close> draws one overlay for each pair of \<^verbatim>\<open>zip\<close>: the result is the
  sequence of overlays, each a scaled box with the tuple it is labelled with.
\<close>

definition draw_face_info :: "box list \<Rightarrow> face_info list \<Rightarrow> (box \<times> face_info) list" where
  "draw_face_info face_locations face_info = zip (map scale_up face_locations) face_info"

subsection \<open>\<^verbatim>\<open>web_deploy.py\<close>\<close>

text \<open>Lines 68 to 91: the name drawn for one face; \<open>fails\<close> is the read of the CSV.\<close>

definition web_name ::
  "bool \<Rightarrow> data_manager \<Rightarrow> encoding list \<Rightarrow> int64 list \<Rightarrow> encoding \<Rightarrow> error + cell" where
  "web_name fails dm known known_ids face_encoding =
     (let matches = compare_faces known face_encoding (6 / 10)
      in if True \<in> set matches then
           let face_distances = face_distance known face_encoding;
               best_match_index = argmin face_distances
           in if matches ! best_match_index then
                (case list_get known_ids best_match_index of
                   Inl err \<Rightarrow> Inl err
                 | Inr person_id \<Rightarrow>
                     (case get_person_by_id (\<lambda>_. fails) dm person_id of
                        Inl err \<Rightarrow> Inl err
                      | Inr None \<Rightarrow> Inr (Text ''Unknown'')
                      | Inr (Some person_data) \<Rightarrow> Inr (name person_data)))
              else Inr (Text ''Unknown Person'')
         else Inr (Text ''Unknown Person''))"

text \<open>
  The loop over \<^verbatim>\<open>face_encodings\<close>: for each face, the inner loop draws every box of
  \<^verbatim>\<open>face_locations\<close> with that face's name. An overlay is a box with the name given to
  \<^verbatim>\<open>cv2.putText\<close>. An exception ends the function with what was drawn so far;
  \<^verbatim>\<open>cv2.putText\<close> raises for a name that is not a string, after the rectangle of the
  first box was drawn. \<open>None\<close> says that the overlays are not determined, the name
  being \<open>Unmodelled\<close>.
\<close>

fun web_draw ::
  "io \<Rightarrow> nat \<Rightarrow> data_manager \<Rightarrow> encoding list \<Rightarrow> int64 list \<Rightarrow> box list \<Rightarrow> encoding list \<Rightarrow>
     (box \<times> cell) list option" where
  "web_draw io k dm known known_ids face_locations [] = Some []"
| "web_draw io k dm known known_ids face_locations (face_encoding # rest) =
     (case web_name (io k) dm known known_ids face_encoding of
        Inl err \<Rightarrow> Some []
      | Inr nm \<Rightarrow>
          if face_locations = [] \<or> is_text nm then
            map_option (\<lambda>drawn. map (\<lambda>b. (b, nm)) face_locations @ drawn)
              (web_draw io (Suc k) dm known known_ids face_locations rest)
          else if nm = Unmodelled then None
          else Some (take 1 (map (\<lambda>b. (b, nm)) face_locations)))"

definition web_recognize_faces_in_frame ::
  "('f \<Rightarrow> box list) \<Rightarrow> ('f \<Rightarrow> box list \<Rightarrow> encoding list) \<Rightarrow> io \<Rightarrow> data_manager \<Rightarrow> 'f \<Rightarrow>
     (box \<times> cell) list option" where
  "web_recognize_faces_in_frame locs_of encs_of io dm frame =
     (let (known, known_ids) = get_all_encodings dm
      in if known = [] then Some []
         else
           let face_locations = locs_of frame;
               face_encodings = encs_of frame face_locations;
               face_locations = map scale_up face_locations
           in web_draw io 0 dm known known_ids face_locations face_encodings)"

section \<open>Stream controller\<close>

text \<open>
  The camera: \<open>opens i\<close> says whether device \<open>i\<close> opens. \<open>held\<close> lists the devices
  the program holds open. A capture object is its index with the answer of
  \<^verbatim>\<open>isOpened()\<close>; releasing one that never opened changes nothing.
\<close>

definition VideoCapture :: "(int \<Rightarrow> bool) \<Rightarrow> int \<Rightarrow> int list \<Rightarrow> (int \<times> bool) \<times> int list" where
  "VideoCapture opens i held = (if opens i then ((i, True), i # held) else ((i, False), held))"

definition release :: "int \<times> bool \<Rightarrow> int list \<Rightarrow> int list" where
  "release cap held = (if snd cap then remove1 (fst cap) held else held)"

text \<open>
  What one iteration of a capture loop receives: \<^verbatim>\<open>cap.read()\<close> fails, or it gives a
  frame and \<^verbatim>\<open>cv2.waitKey(1) & 0xFF\<close> gives a key code (255 when no key is pressed),
  or the user interrupts the program (\<^verbatim>\<open>KeyboardInterrupt\<close>).
\<close>

datatype 'f tick = ReadFailed | Interrupt | Frame 'f int

subsection \<open>Interactive recognition: \<^verbatim>\<open>run_recognition\<close>\<close>

record loop_state =
  recognizer :: face_recognizer
  frame_count :: nat
  shown :: "(box \<times> face_info) list list"

datatype outcome = Quit | ReadError | Interrupted | Crashed error

text \<open>
  The \<^verbatim>\<open>while True\<close> loop. Iteration \<open>k\<close> receives \<open>env k\<close>, and a reload in it reads
  the disk \<open>ios k\<close>. \<open>None\<close> says that the loop is still running after \<open>fuel\<close>
  iterations. An exception of the frame processor is not caught by
  \<^verbatim>\<open>except KeyboardInterrupt\<close>: it leaves the loop. The frames-per-second text depends
  on the clock and is left out.
\<close>

fun recognition_loop ::
  "nat \<Rightarrow> ('f \<Rightarrow> box list) \<Rightarrow> ('f \<Rightarrow> box list \<Rightarrow> encoding list) \<Rightarrow> (nat \<Rightarrow> io) \<Rightarrow>
     (nat \<Rightarrow> 'f tick) \<Rightarrow> loop_state \<Rightarrow> (outcome \<times> loop_state) option" where
  "recognition_loop 0 locs_of encs_of ios env s = None"
| "recognition_loop (Suc fuel) locs_of encs_of ios env s =
     (case env (frame_count s) of
        ReadFailed \<Rightarrow> Some (ReadError, s)
      | Interrupt \<Rightarrow> Some (Interrupted, s)
      | Frame frame key \<Rightarrow>
          (case (if frame_count s mod 2 = 0
                 then (case recognize_faces_in_frame locs_of encs_of (recognizer s) frame of
                         Inl err \<Rightarrow> Inl err
                       | Inr (face_locations, face_info) \<Rightarrow>
                           Inr (draw_face_info face_locations face_info))
                 else Inr []) of
             Inl err \<Rightarrow> Some (Crashed err, s)
           | Inr overlay \<Rightarrow>
               let s1 = s\<lparr>frame_count := frame_count s + 1, shown := shown s @ [overlay]\<rparr>
               in if key = 113 then Some (Quit, s1)
                  else if key = 114 then
                    recognition_loop fuel locs_of encs_of ios env
                      (s1\<lparr>recognizer :=
                            snd (load_known_faces (ios (frame_count s)) (recognizer s1))\<rparr>)
                  else if key = 116 then
                    recognition_loop fuel locs_of encs_of ios env
                      (s1\<lparr>recognizer := (recognizer s1)
                            \<lparr>tolerance :=
                               (if tolerance (recognizer s1) = 6 / 10 then 9 / 10 else 6 / 10)\<rparr>\<rparr>)
                  else recognition_loop fuel locs_of encs_of ios env s1))"

datatype run_result = NoFacesRegistered | CameraError | Ended outcome loop_state

text \<open>
  \<^verbatim>\<open>run_recognition\<close> opens device 0 and no other. The second component is the list
  of devices still held when it returns; \<^verbatim>\<open>finally\<close> releases the capture on every
  way out of the loop.
\<close>

definition run_recognition ::
  "nat \<Rightarrow> ('f \<Rightarrow> box list) \<Rightarrow> ('f \<Rightarrow> box list \<Rightarrow> encoding list) \<Rightarrow> (int \<Rightarrow> bool) \<Rightarrow>
     (nat \<Rightarrow> io) \<Rightarrow> (nat \<Rightarrow> 'f tick) \<Rightarrow> face_recognizer \<Rightarrow> (run_result \<times> int list) option" where
  "run_recognition fuel locs_of encs_of opens ios env fr =
     (if known_encodings fr = [] then Some (NoFacesRegistered, [])
      else
        (case VideoCapture opens 0 [] of
           (cap, held) \<Rightarrow>
             if \<not> snd cap then Some (CameraError, held)
             else
               (case recognition_loop fuel locs_of encs_of ios env
                       \<lparr>recognizer = fr, frame_count = 0, shown = []\<rparr> of
                  None \<Rightarrow> None
                | Some (out, s) \<Rightarrow> Some (Ended out s, release cap held))))"

subsection \<open>Enrolment capture: \<^verbatim>\<open>register.py\<close>\<close>

definition max_attempts :: nat where
  "max_attempts = 100"

datatype capture = Captured encoding | NoCapture | CaptureInterrupted

text \<open>
  The loop \<^verbatim>\<open>while capture_attempts < max_attempts\<close> of \<^verbatim>\<open>capture_from_webcam\<close>.
  Here the capabilities are applied to the full frame. SPACE is 32 and ESC is 27.
  \<^verbatim>\<open>KeyboardInterrupt\<close> is not an \<^verbatim>\<open>Exception\<close>, so it leaves the function.
\<close>

function capture_loop ::
  "('f \<Rightarrow> box list) \<Rightarrow> ('f \<Rightarrow> box list \<Rightarrow> encoding list) \<Rightarrow> (nat \<Rightarrow> 'f tick) \<Rightarrow> nat \<Rightarrow> capture" where
  "capture_loop locs_of encs_of env capture_attempts =
     (if capture_attempts < max_attempts then
        (case env capture_attempts of
           ReadFailed \<Rightarrow> NoCapture
         | Interrupt \<Rightarrow> CaptureInterrupted
         | Frame frame key \<Rightarrow>
             let face_locations = locs_of frame
             in if key = 32 then
                  (if face_locations \<noteq> [] then
                     (case encs_of frame face_locations of
                        [] \<Rightarrow> capture_loop locs_of encs_of env (capture_attempts + 1)
                      | enc # _ \<Rightarrow> Captured enc)
                   else capture_loop locs_of encs_of env (capture_attempts + 1))
                else if key = 27 then NoCapture
                else capture_loop locs_of encs_of env (capture_attempts + 1))
      else NoCapture)"
  by pat_completeness auto
termination
  by (relation "measure (\<lambda>(locs_of, encs_of, env, a). max_attempts - a)") auto

definition capture_from_webcam ::
  "('f \<Rightarrow> box list) \<Rightarrow> ('f \<Rightarrow> box list \<Rightarrow> encoding list) \<Rightarrow> (int \<Rightarrow> bool) \<Rightarrow>
     (int \<Rightarrow> nat \<Rightarrow> 'f tick) \<Rightarrow> int \<Rightarrow> int list \<Rightarrow> capture \<times> int list" where
  "capture_from_webcam locs_of encs_of opens cam camera_index held =
     (case VideoCapture opens camera_index held of
        (cap, held1) \<Rightarrow>
          (if \<not> snd cap then NoCapture else capture_loop locs_of encs_of (cam camera_index) 0,
           release cap held1))"

text \<open>The loop \<^verbatim>\<open>for camera_index in [0, 1, 2]\<close> of \<^verbatim>\<open>capture_face_encoding\<close>.\<close>

fun try_cameras ::
  "('f \<Rightarrow> box list) \<Rightarrow> ('f \<Rightarrow> box list \<Rightarrow> encoding list) \<Rightarrow> (int \<Rightarrow> bool) \<Rightarrow>
     (int \<Rightarrow> nat \<Rightarrow> 'f tick) \<Rightarrow> int list \<Rightarrow> int list \<Rightarrow> capture \<times> int list" where
  "try_cameras locs_of encs_of opens cam [] held = (NoCapture, held)"
| "try_cameras locs_of encs_of opens cam (camera_index # rest) held =
     (case capture_from_webcam locs_of encs_of opens cam camera_index held of
        (NoCapture, held') \<Rightarrow> try_cameras locs_of encs_of opens cam rest held'
      | (result, held') \<Rightarrow> (result, held'))"

definition capture_face_encoding ::
  "('f \<Rightarrow> box list) \<Rightarrow> ('f \<Rightarrow> box list \<Rightarrow> encoding list) \<Rightarrow> (int \<Rightarrow> bool) \<Rightarrow>
     (int \<Rightarrow> nat \<Rightarrow> 'f tick) \<Rightarrow> capture \<times> int list" where
  "capture_face_encoding locs_of encs_of opens cam =
     try_cameras locs_of encs_of opens cam [0, 1, 2] []"

subsection \<open>Streamed mode: \<^verbatim>\<open>generate_frames\<close>\<close>

text \<open>
  What \<^verbatim>\<open>get_frame()\<close> gives in one iteration: nothing, or a frame together with
  whether \<^verbatim>\<open>cv2.imencode\<close> succeeds on it.
\<close>

datatype 'f grab = NoFrame | Grabbed 'f bool

text \<open>
  The generator's \<^verbatim>\<open>while True\<close> has no \<^verbatim>\<open>break\<close> and no \<^verbatim>\<open>return\<close>. \<open>yielded\<close>
  collects the overlays of the frames it has yielded; \<open>None\<close> says that it is still
  running after \<open>fuel\<close> iterations.
\<close>

fun generate_frames ::
  "nat \<Rightarrow> ('f \<Rightarrow> box list) \<Rightarrow> ('f \<Rightarrow> box list \<Rightarrow> encoding list) \<Rightarrow> (nat \<Rightarrow> io) \<Rightarrow>
     data_manager \<Rightarrow> (nat \<Rightarrow> 'f grab) \<Rightarrow> nat \<Rightarrow> (box \<times> cell) list option list \<Rightarrow>
     (box \<times> cell) list option list option" where
  "generate_frames 0 locs_of encs_of ios dm env k yielded = None"
| "generate_frames (Suc fuel) locs_of encs_of ios dm env k yielded =
     (case env k of
        NoFrame \<Rightarrow> generate_frames fuel locs_of encs_of ios dm env (Suc k) yielded
      | Grabbed frame encoded \<Rightarrow>
          let frame' = web_recognize_faces_in_frame locs_of encs_of (ios k) dm frame
          in if \<not> encoded then generate_frames fuel locs_of encs_of ios dm env (Suc k) yielded
             else generate_frames fuel locs_of encs_of ios dm env (Suc k) (yielded @ [frame']))"

section \<open>Example data\<close>

text \<open>
  Two people as the registration dialogue hands them to \<^verbatim>\<open>add_person\<close>: every field a
  string, the optional ones empty.
\<close>

definition ann :: person where
  "ann = \<lparr>id' = 1, name = Text ''Ann'', class_name = Text ''CS'', roll_number = Text ''7'',
          email = Text [], phone = Text [],
          registration_date = Text ''2024-01-01 10:00:00''\<rparr>"

definition bob :: person where
  "bob = \<lparr>id' = 2, name = Text ''Bob'', class_name = Text ''EE'', roll_number = Text ''8'',
          email = Text [], phone = Text [],
          registration_date = Text ''2024-01-02 10:00:00''\<rparr>"

text \<open>A frame with two faces, a frame with none, and streams of ticks.\<close>

definition two_boxes :: "unit \<Rightarrow> box list" where
  "two_boxes frame = [(10, 20, 30, 40), (50, 60, 70, 80)]"

definition two_faces :: "unit \<Rightarrow> box list \<Rightarrow> encoding list" where
  "two_faces frame boxes = [[0, 0], [3, 4]]"

definition no_boxes :: "unit \<Rightarrow> box list" where
  "no_boxes frame = []"

definition no_faces :: "unit \<Rightarrow> box list \<Rightarrow> encoding list" where
  "no_faces frame boxes = []"

definition idle :: "nat \<Rightarrow> unit tick" where
  "idle k = Frame () 255"

definition ann_recognizer :: face_recognizer where
  "ann_recognizer =
     snd (FaceRecognizer_init reliable (6 / 10) (DataManager_init [ann] [(1, [0, 0])]))"

definition quit_at_2 :: "nat \<Rightarrow> unit tick" where
  "quit_at_2 k = (if k = 2 then Frame () 113 else Frame () 255)"

definition space_pressed :: "int \<Rightarrow> nat \<Rightarrow> unit tick" where
  "space_pressed camera_index k = Frame () 32"

section \<open>Auxiliary definitions\<close>

text \<open>The dictionary \<^verbatim>\<open>get_person_by_id\<close> returns for an id when the file can be read.\<close>

definition row_of :: "data_manager \<Rightarrow> int64 \<Rightarrow> person option" where
  "row_of dm i = map_option row_to_dict (find (\<lambda>row. id' row = i) (reread (csv dm)))"

text \<open>The largest stored id, as a signed number.\<close>

definition max_id :: "data_manager \<Rightarrow> int" where
  "max_id dm = Max (set (map (\<lambda>row. sint (id' row)) (csv dm)))"


text \<open>
  The ticks on which an iteration of the recognition loop leaves the loop: a failed read,
  an interrupt, or the key \<^verbatim>\<open>q\<close> (113).
\<close>

fun stop_tick :: "'f tick \<Rightarrow> bool" where
  "stop_tick ReadFailed = True"
| "stop_tick Interrupt = True"
| "stop_tick (Frame frame key) = (key = 113)"

section \<open>Properties of the gallery store\<close>



lemma length_infer_column: "length (infer_column column) = length column"
  by (simp add: infer_column_def)

lemma length_reread: "length (reread rows) = length rows"
  by (simp add: reread_def)

lemma reread_ids: "map id' (reread rows) = map id' rows"
  by (rule nth_equalityI) (simp_all add: reread_def)

lemma reread_Nil: "reread rows = [] \<longleftrightarrow> rows = []"
  using length_reread[of rows] by (metis length_0_conv)

lemma reread_empty [simp]: "reread [] = []"
  by (simp add: reread_def)

lemma reread_sints:
  "map (\<lambda>row. sint (id' row)) (reread rows) = map (\<lambda>row. sint (id' row)) rows"
proof -
  have "map (\<lambda>row. sint (id' row)) (reread rows) = map sint (map id' (reread rows))"
    by simp
  also have "\<dots> = map (\<lambda>row. sint (id' row)) rows"
    by (simp only: reread_ids) simp
  finally show ?thesis .
qed


lemma get_next_id_eq:
  "get_next_id io dm =
     (if io 0 then Inl IOError
      else if csv dm = [] then Inr 1
      else Inr (word_of_int (max_id dm) + 1))"
  by (simp add: get_next_id_def read_csv_def reread_Nil reread_sints max_id_def)

lemma simple_get_next_id_eq:
  "simple_get_next_id io dm =
     (if io 0 then 1 else if csv dm = [] then 1 else word_of_int (max_id dm) + 1)"
  by (simp add: simple_get_next_id_def read_csv_def reread_Nil reread_sints max_id_def)

lemma add_person_reliable:
  "add_person reliable dm r e =
     (let i = (if csv dm = [] then 1 else word_of_int (max_id dm) + 1);
          d = dict_set i e (encodings dm)
      in (Inr i, dm\<lparr>csv := reread (csv dm) @ [r\<lparr>id' := i\<rparr>], encodings := d, pkl := d\<rparr>))"
  by (simp add: add_person_def get_next_id_eq read_csv_def reliable_def Let_def)







lemmas eval_pandas = reread_def infer_column_def cell_kind_def kind_of_def na_values_def
  int_literal_def digits_value_def is_digit_def plain_text_def printable_def numeric_char_def
  squash_def special_tokens_def lower_def

lemma ann_fields:
  "id' ann = 1" "name ann = Text ''Ann''" "class_name ann = Text ''CS''"
  "roll_number ann = Text ''7''" "email ann = Text []" "phone ann = Text []"
  "registration_date ann = Text ''2024-01-01 10:00:00''"
  by (simp_all add: ann_def)

lemma bob_fields:
  "id' bob = 2" "name bob = Text ''Bob''" "class_name bob = Text ''EE''"
  "roll_number bob = Text ''8''" "email bob = Text []" "phone bob = Text []"
  "registration_date bob = Text ''2024-01-02 10:00:00''"
  by (simp_all add: bob_def)

lemma reread_ann:
  "reread [ann] = [ann\<lparr>roll_number := Num 7, email := NaN, phone := NaN\<rparr>]"
  by (simp add: eval_pandas ann_def)

lemma reread_bob:
  "reread [bob] = [bob\<lparr>roll_number := Num 8, email := NaN, phone := NaN\<rparr>]"
  by (simp add: eval_pandas bob_def)

lemma reread_ann_bob:
  "reread [ann, bob] =
     [ann\<lparr>roll_number := Num 7, email := NaN, phone := NaN\<rparr>,
      bob\<lparr>roll_number := Num 8, email := NaN, phone := NaN\<rparr>]"
  by (simp add: eval_pandas ann_def bob_def)

lemma row_to_dict_text: "is_text (name row) \<Longrightarrow> row_to_dict row = row"
  by (simp add: row_to_dict_def)

lemma get_person_by_id_reliable: "get_person_by_id reliable dm i = Inr (row_of dm i)"
  by (simp add: get_person_by_id_def read_csv_def reliable_def row_of_def)

lemma get_person_by_id_reliable': "get_person_by_id (\<lambda>_. reliable k) dm i = Inr (row_of dm i)"
  by (simp add: get_person_by_id_def read_csv_def reliable_def row_of_def)

lemmas eval_store = DataManager_init_def get_all_encodings_def get_person_by_id_reliable
  get_person_by_id_reliable' row_of_def reread_ann reread_bob reread_ann_bob
  ann_fields bob_fields row_to_dict_text is_text_def

text \<open>
  Claim C5, on an ordinary enrolment. The registration dialogue hands over strings, the
  roll number \<^verbatim>\<open>'7'\<close> and the optional fields empty. \<^verbatim>\<open>add_person\<close> returns id 1, and
  \<^verbatim>\<open>get_person_by_id\<close> of that id gives the roll number as the integer 7 and the e-mail
  address and the phone number as \<^verbatim>\<open>NaN\<close>: a record that is not the one passed in.
\<close>

theorem round_trip_changes_fields:
  "fst (add_person reliable (DataManager_init [] []) ann [0, 0]) = Inr 1
   \<and> get_person_by_id reliable (snd (add_person reliable (DataManager_init [] []) ann [0, 0])) 1
       = Inr (Some (ann\<lparr>roll_number := Num 7, email := NaN, phone := NaN\<rparr>))
   \<and> ann\<lparr>roll_number := Num 7, email := NaN, phone := NaN\<rparr> \<noteq> ann\<lparr>id' := 1\<rparr>"
proof -
  have "ann\<lparr>id' := 1\<rparr> = ann" by (simp add: ann_def)
  moreover have "roll_number (ann\<lparr>roll_number := Num 7, email := NaN, phone := NaN\<rparr>)
      \<noteq> roll_number ann"
    by (simp add: ann_fields)
  ultimately have "ann\<lparr>roll_number := Num 7, email := NaN, phone := NaN\<rparr> \<noteq> ann\<lparr>id' := 1\<rparr>"
    by metis
  moreover have "add_person reliable (DataManager_init [] []) ann [0, 0]
      = (Inr 1, \<lparr>csv = [ann], pkl = [(1, [0, 0])], encodings = [(1, [0, 0])]\<rparr>)"
    using \<open>ann\<lparr>id' := 1\<rparr> = ann\<close>
    by (simp add: add_person_reliable DataManager_init_def Let_def)
  ultimately show ?thesis
    by (simp add: get_person_by_id_reliable row_of_def reread_ann ann_fields row_to_dict_text
        is_text_def)
qed

lemma dict_set_mem: "(k, v) \<in> set (dict_set k v d)"
  by (induction d) auto

lemma map_of_dict_set: "map_of (dict_set k v d) k = Some v"
  by (induction d) auto

lemma zip_snapshot: "zip (map fst d) (map snd d) = d"
  by (induction d) auto

text \<open>
  The part of the round trip that holds: on a reliable disk \<^verbatim>\<open>add_person\<close> returns an
  id, and the snapshot of \<^verbatim>\<open>get_all_encodings\<close> pairs that id with the encoding that
  was passed in.
\<close>

theorem snapshot_holds_new_encoding:
  "case add_person reliable dm r e of
     (Inl err, dm') \<Rightarrow> False
   | (Inr i, dm') \<Rightarrow>
       (i, e) \<in> set (zip (snd (get_all_encodings dm')) (fst (get_all_encodings dm'))) \<and>
       map_of (zip (snd (get_all_encodings dm')) (fst (get_all_encodings dm'))) i = Some e"
  by (simp add: add_person_reliable Let_def get_all_encodings_def zip_snapshot dict_set_mem
      map_of_dict_set)

section \<open>Properties of the matcher\<close>

lemma argmin_less: "xs \<noteq> [] \<Longrightarrow> argmin xs < length xs"
  by (induction xs rule: argmin.induct) (auto simp: Let_def)

lemma argmin_le: "j < length xs \<Longrightarrow> xs ! argmin xs \<le> xs ! j"
proof (induction xs arbitrary: j rule: argmin.induct)
  case 1
  then show ?case by simp
next
  case (2 x)
  then show ?case by simp
next
  case (3 x y ys)
  show ?case
  proof (cases j)
    case 0
    then show ?thesis by (auto simp: Let_def)
  next
    case (Suc j')
    with "3.prems" have "(y # ys) ! argmin (y # ys) \<le> (y # ys) ! j'"
      by (intro "3.IH") auto
    with Suc show ?thesis by (auto simp: Let_def)
  qed
qed

lemma argmin_first: "j < argmin xs \<Longrightarrow> xs ! argmin xs < xs ! j"
proof (induction xs arbitrary: j rule: argmin.induct)
  case 1
  then show ?case by simp
next
  case (2 x)
  then show ?case by simp
next
  case (3 x y ys)
  from "3.prems" have pos: "\<not> x \<le> (y # ys) ! argmin (y # ys)"
    by (auto simp: Let_def split: if_splits)
  show ?case
  proof (cases j)
    case 0
    with pos show ?thesis by (auto simp: Let_def)
  next
    case (Suc j')
    with "3.prems" pos have "j' < argmin (y # ys)" by (auto simp: Let_def)
    then have "(y # ys) ! argmin (y # ys) < (y # ys) ! j'" by (rule "3.IH")
    with Suc pos show ?thesis by (auto simp: Let_def)
  qed
qed

lemma argmin_Min: "xs \<noteq> [] \<Longrightarrow> xs ! argmin xs = Min (set xs)"
proof (rule sym, rule Min_eqI)
  show "finite (set xs)" by simp
next
  fix y assume "xs \<noteq> []" "y \<in> set xs"
  then obtain j where "j < length xs" "y = xs ! j" by (auto simp: in_set_conv_nth)
  then show "xs ! argmin xs \<le> y" using argmin_le by simp
next
  assume "xs \<noteq> []"
  then show "xs ! argmin xs \<in> set xs" using argmin_less by simp
qed

lemma argmin_unique:
  assumes "i < length xs" and "\<forall>j < length xs. xs ! i \<le> xs ! j" and "\<forall>j < i. xs ! j \<noteq> xs ! i"
  shows "argmin xs = i"
proof -
  have ne: "xs \<noteq> []" using assms(1) by auto
  have eq: "xs ! argmin xs = xs ! i"
    using argmin_le[OF assms(1)] assms(2) argmin_less[OF ne] by (auto intro: antisym)
  have "\<not> argmin xs < i" using assms(3) eq by auto
  moreover have "\<not> i < argmin xs" using argmin_first[of i xs] eq by auto
  ultimately show ?thesis by simp
qed

lemma True_in_matches:
  "True \<in> set (compare_faces known probe tol) \<longleftrightarrow>
     known \<noteq> [] \<and> Min (set (face_distance known probe)) \<le> tol"
proof (cases "known = []")
  case True
  then show ?thesis by (simp add: compare_faces_def face_distance_def)
next
  case False
  let ?ds = "face_distance known probe"
  have ne: "?ds \<noteq> []" using False by (simp add: face_distance_def)
  have "(\<exists>d \<in> set ?ds. d \<le> tol) \<longleftrightarrow> Min (set ?ds) \<le> tol"
    using ne by (subst Min_le_iff) auto
  then show ?thesis using False by (auto simp: compare_faces_def)
qed

lemma best_matches:
  assumes "known \<noteq> []"
  shows "compare_faces known probe tol ! argmin (face_distance known probe) \<longleftrightarrow>
           Min (set (face_distance known probe)) \<le> tol"
proof -
  let ?ds = "face_distance known probe"
  have ne: "?ds \<noteq> []" using assms by (simp add: face_distance_def)
  have "argmin ?ds < length ?ds" using ne by (rule argmin_less)
  then have "compare_faces known probe tol ! argmin ?ds \<longleftrightarrow> ?ds ! argmin ?ds \<le> tol"
    by (simp add: compare_faces_def)
  then show ?thesis using argmin_Min[OF ne] by simp
qed

text \<open>
  The index the matcher picks, for every gallery that is not empty and every probe:
  \<^verbatim>\<open>best_match_index\<close> is an index of the gallery, its distance is the smallest one, and
  every entry before it is strictly farther from the probe.
\<close>

theorem first_minimum_index:
  fixes known :: "encoding list" and probe :: encoding
  defines "ds \<equiv> face_distance known probe"
  assumes "known \<noteq> []"
  shows "argmin ds < length known \<and> ds ! argmin ds = Min (set ds)
         \<and> (\<forall>j < argmin ds. ds ! argmin ds < ds ! j)"
proof -
  have ne: "ds \<noteq> []" using assms by (simp add: face_distance_def)
  have "length ds = length known" by (simp add: ds_def face_distance_def)
  then show ?thesis
    using argmin_less[OF ne] argmin_Min[OF ne] argmin_first[of _ ds] by simp
qed

theorem first_minimum_index_witness:
  "argmin (face_distance [[3, 4], [3, 0], [0, 3]] [0, 0]) = 1
   \<and> face_distance [[3, 4], [3, 0], [0, 3]] [0, 0] = [5, 3, 3]"
proof -
  have ne: "[[3, 4], [3, 0], [0, 3 :: real]] \<noteq> []" by simp
  show ?thesis
    using first_minimum_index[OF ne, of "[0, 0]"]
    by (simp add: face_distance_def euclidean_def)
qed

text \<open>What \<open>match_face\<close> computes, for any recognizer state.\<close>

lemma match_face_eq:
  "match_face fr probe =
     (if known_encodings fr = [] then Inr unknown_person
      else
        let ds = face_distance (known_encodings fr) probe; i = argmin ds
        in if Min (set ds) \<le> tolerance fr then
             (if i < length (known_names fr) \<and> i < length (known_classes fr)
                  \<and> i < length (known_roll_numbers fr)
              then Inr (known_names fr ! i, known_classes fr ! i, known_roll_numbers fr ! i,
                        1 - Min (set ds))
              else Inl IndexError)
           else Inr unknown_person)"
proof (cases "known_encodings fr = []")
  case True
  then show ?thesis by (simp add: match_face_def)
next
  case False
  have ne: "face_distance (known_encodings fr) probe \<noteq> []"
    using False by (simp add: face_distance_def)
  show ?thesis
    using False argmin_Min[OF ne]
    by (simp add: match_face_def Let_def True_in_matches best_matches list_get_def)
qed

lemma load_details_reliable:
  "load_details reliable k ids fr =
     (let rows = List.map_filter (row_of (data_manager fr)) ids
      in (None, fr\<lparr>known_names := known_names fr @ map name rows,
                   known_classes := known_classes fr @ map class_name rows,
                   known_roll_numbers := known_roll_numbers fr @ map roll_number rows\<rparr>))"
proof (induction ids arbitrary: k fr)
  case Nil
  then show ?case by simp
next
  case (Cons i ids)
  show ?case
  proof (cases "row_of (data_manager fr) i")
    case None
    then show ?thesis
      by (simp add: get_person_by_id_reliable' Cons.IH Let_def)
  next
    case (Some row)
    then show ?thesis
      by (simp add: get_person_by_id_reliable' Cons.IH Let_def)
  qed
qed

lemma load_known_faces_reliable:
  "load_known_faces reliable fr =
     (let store = encodings (data_manager fr);
          rows = List.map_filter (row_of (data_manager fr)) (map fst store)
      in if store = []
         then ([NoRegisteredFaces], fr\<lparr>known_encodings := [], known_person_ids := []\<rparr>)
         else ([LoadedFaces (length store)],
               fr\<lparr>known_encodings := map snd store, known_person_ids := map fst store,
                  known_names := known_names fr @ map name rows,
                  known_classes := known_classes fr @ map class_name rows,
                  known_roll_numbers := known_roll_numbers fr @ map roll_number rows\<rparr>))"
  by (simp add: load_known_faces_def get_all_encodings_def load_details_reliable Let_def)

lemma map_filter_all_found:
  "\<forall>i \<in> set ids. f i \<noteq> None \<Longrightarrow> List.map_filter f ids = map (\<lambda>i. the (f i)) ids"
  by (induction ids) auto

lemma init_reliable:
  assumes "\<forall>i \<in> set (snd (get_all_encodings dm)). get_person_by_id reliable dm i \<noteq> Inr None"
    and "encodings dm \<noteq> []"
  shows "snd (FaceRecognizer_init reliable tol dm) =
     \<lparr>tolerance = tol, data_manager = dm,
      known_encodings = map snd (encodings dm), known_person_ids = map fst (encodings dm),
      known_names = map (\<lambda>(i, e). name (the (row_of dm i))) (encodings dm),
      known_classes = map (\<lambda>(i, e). class_name (the (row_of dm i))) (encodings dm),
      known_roll_numbers = map (\<lambda>(i, e). roll_number (the (row_of dm i))) (encodings dm)\<rparr>"
proof -
  have "\<forall>i \<in> set (map fst (encodings dm)). row_of dm i \<noteq> None"
    using assms(1) by (simp add: get_all_encodings_def get_person_by_id_reliable)
  then have "List.map_filter (row_of dm) (map fst (encodings dm))
      = map (\<lambda>i. the (row_of dm i)) (map fst (encodings dm))"
    by (rule map_filter_all_found)
  then show ?thesis
    using assms(2)
    by (simp add: FaceRecognizer_init_def load_known_faces_reliable Let_def case_prod_unfold comp_def)
qed

lemma init_reliable_empty:
  "encodings dm = [] \<Longrightarrow> known_encodings (snd (FaceRecognizer_init reliable tol dm)) = []"
  by (simp add: FaceRecognizer_init_def load_known_faces_reliable Let_def)

lemma match_face_after_init:
  fixes dm :: data_manager and probe :: encoding and tol :: real
  defines "fr \<equiv> snd (FaceRecognizer_init reliable tol dm)"
    and "ds \<equiv> map (\<lambda>e. euclidean e probe) (fst (get_all_encodings dm))"
  assumes consistent:
    "\<forall>i \<in> set (snd (get_all_encodings dm)). get_person_by_id reliable dm i \<noteq> Inr None"
    and ne: "encodings dm \<noteq> []"
  shows "\<exists>row. get_person_by_id reliable dm (snd (get_all_encodings dm) ! argmin ds) = Inr (Some row)
           \<and> match_face fr probe =
               (if Min (set ds) \<le> tol
                then Inr (name row, class_name row, roll_number row, 1 - Min (set ds))
                else Inr unknown_person)"
proof -
  let ?E = "encodings dm"
  have fd: "face_distance (map snd ?E) probe = ds"
    by (simp add: ds_def face_distance_def get_all_encodings_def)
  have "ds \<noteq> []" using ne by (simp add: ds_def get_all_encodings_def)
  then have "argmin ds < length ds" by (rule argmin_less)
  then have kE: "argmin ds < length ?E" by (simp add: ds_def get_all_encodings_def)
  then have "fst (?E ! argmin ds) \<in> set (snd (get_all_encodings dm))"
    by (simp add: get_all_encodings_def)
  with consistent obtain row
    where row: "row_of dm (fst (?E ! argmin ds)) = Some row"
    by (auto simp: get_person_by_id_reliable)
  have "match_face fr probe =
      (if Min (set ds) \<le> tol
       then Inr (name row, class_name row, roll_number row, 1 - Min (set ds))
       else Inr unknown_person)"
    using ne kE row
    by (simp add: fr_def init_reliable[OF consistent ne] match_face_eq fd Let_def
        case_prod_unfold)
  moreover have "get_person_by_id reliable dm (snd (get_all_encodings dm) ! argmin ds) = Inr (Some row)"
    using kE row by (simp add: get_person_by_id_reliable get_all_encodings_def)
  ultimately show ?thesis by blast
qed

text \<open>
  The matcher on a consistent gallery. Take a recognizer freshly loaded, on a reliable
  disk, from a store in which every gallery id has a record. For every probe: on an empty
  gallery the matcher answers the unknown person with confidence 0; otherwise, with the
  Euclidean distances from the probe to all entries, if the smallest distance is at most
  the tolerance it answers the record of an entry at that smallest distance with
  confidence exactly one minus that distance (no clamping), and the unknown person with
  confidence 0 if not.
\<close>

theorem matcher_result:
  fixes dm :: data_manager and probe :: encoding and tol :: real
  defines "fr \<equiv> snd (FaceRecognizer_init reliable tol dm)"
    and "ds \<equiv> map (\<lambda>e. euclidean e probe) (fst (get_all_encodings dm))"
  assumes consistent:
    "\<forall>i \<in> set (snd (get_all_encodings dm)). get_person_by_id reliable dm i \<noteq> Inr None"
  shows "if fst (get_all_encodings dm) = [] then match_face fr probe = Inr unknown_person
         else if Min (set ds) \<le> tol then
           (\<exists>k row. k < length ds \<and> ds ! k = Min (set ds) \<and>
              get_person_by_id reliable dm (snd (get_all_encodings dm) ! k) = Inr (Some row) \<and>
              match_face fr probe = Inr (name row, class_name row, roll_number row, 1 - Min (set ds)))
         else match_face fr probe = Inr unknown_person"
proof (cases "encodings dm = []")
  case True
  then show ?thesis
    by (simp add: fr_def match_face_eq init_reliable_empty get_all_encodings_def)
next
  case False
  have ne: "ds \<noteq> []" using False by (simp add: ds_def get_all_encodings_def)
  have k: "argmin ds < length ds" using ne by (rule argmin_less)
  have Min: "ds ! argmin ds = Min (set ds)" using ne by (rule argmin_Min)
  from match_face_after_init[OF consistent False, of probe tol]
  obtain row where
    "get_person_by_id reliable dm (snd (get_all_encodings dm) ! argmin ds) = Inr (Some row)"
    "match_face fr probe =
      (if Min (set ds) \<le> tol
       then Inr (name row, class_name row, roll_number row, 1 - Min (set ds))
       else Inr unknown_person)"
    by (auto simp: fr_def ds_def)
  then show ?thesis using False k Min
    by (auto simp: get_all_encodings_def)
qed

text \<open>
  The tie-break on a consistent gallery: among the entries at the smallest distance from
  the probe the matcher answers the record of the one that stands first in the snapshot.
\<close>

theorem tie_break_first:
  fixes dm :: data_manager and probe :: encoding and tol :: real
  defines "fr \<equiv> snd (FaceRecognizer_init reliable tol dm)"
    and "ds \<equiv> map (\<lambda>e. euclidean e probe) (fst (get_all_encodings dm))"
  assumes consistent:
    "\<forall>i \<in> set (snd (get_all_encodings dm)). get_person_by_id reliable dm i \<noteq> Inr None"
    and i: "i < length ds"
    and minimal: "\<forall>j < length ds. ds ! i \<le> ds ! j"
    and first: "\<forall>j < i. ds ! j \<noteq> ds ! i"
    and within: "ds ! i \<le> tol"
  shows "\<exists>row. get_person_by_id reliable dm (snd (get_all_encodings dm) ! i) = Inr (Some row) \<and>
            match_face fr probe = Inr (name row, class_name row, roll_number row, 1 - ds ! i)"
proof -
  have ne: "fst (get_all_encodings dm) \<noteq> []" using i by (auto simp: ds_def)
  have best: "argmin ds = i" using i minimal first by (rule argmin_unique)
  have "ds \<noteq> []" using i by auto
  then have Min: "Min (set ds) = ds ! i" using argmin_Min[of ds] best by simp
  have "encodings dm \<noteq> []" using ne by (simp add: get_all_encodings_def)
  from match_face_after_init[OF consistent this, of probe tol] within
  show ?thesis
    by (simp add: Min best fr_def flip: ds_def)
qed

lemmas eval_match = FaceRecognizer_init_def load_known_faces_def match_face_def
  compare_faces_def face_distance_def euclidean_def list_get_def unknown_person_def Let_def

theorem matcher_result_witness:
  "match_face (snd (FaceRecognizer_init reliable (6 / 10)
        (DataManager_init [ann, bob] [(1, [0, 0]), (2, [3, 4])]))) [0, 0]
     = Inr (Text ''Ann'', Text ''CS'', Num 7, 1)
   \<and> match_face (snd (FaceRecognizer_init reliable (6 / 10)
        (DataManager_init [ann, bob] [(1, [0, 0]), (2, [3, 4])]))) [3, 0]
     = Inr unknown_person
   \<and> match_face (snd (FaceRecognizer_init reliable 5
        (DataManager_init [ann, bob] [(1, [0, 0]), (2, [3, 4])]))) [6, 8]
     = Inr (Text ''Bob'', Text ''EE'', Num 8, - 4)
   \<and> match_face (snd (FaceRecognizer_init reliable (6 / 10) (DataManager_init [ann, bob] [])))
        [0, 0]
     = Inr unknown_person"
proof -
  let ?dm = "DataManager_init [ann, bob] [(1, [0, 0]), (2, [3, 4])]"
  have c: "\<forall>i \<in> set (snd (get_all_encodings ?dm)). get_person_by_id reliable ?dm i \<noteq> Inr None"
    by (simp add: eval_store)
  have c0: "\<forall>i \<in> set (snd (get_all_encodings (DataManager_init [ann, bob] []))).
      get_person_by_id reliable (DataManager_init [ann, bob] []) i \<noteq> Inr None"
    by (simp add: eval_store)
  show ?thesis
    using matcher_result[OF c, of "6 / 10" "[0, 0]"] matcher_result[OF c, of "6 / 10" "[3, 0]"]
      matcher_result[OF c, of 5 "[6, 8]"] matcher_result[OF c0, of "6 / 10" "[0, 0]"]
    by (simp add: eval_store eval_match)
qed

theorem tie_break_first_witness:
  "match_face (snd (FaceRecognizer_init reliable 3
        (DataManager_init [ann, bob] [(1, [3, 0]), (2, [0, 3])]))) [0, 0]
     = Inr (Text ''Ann'', Text ''CS'', Num 7, - 2)"
proof -
  let ?dm = "DataManager_init [ann, bob] [(1, [3, 0]), (2, [0, 3])]"
  let ?ds = "map (\<lambda>e. euclidean e [0, 0]) (fst (get_all_encodings ?dm))"
  have ds: "?ds = [3, 3]" by (simp add: DataManager_init_def get_all_encodings_def euclidean_def)
  have c: "\<forall>i \<in> set (snd (get_all_encodings ?dm)). get_person_by_id reliable ?dm i \<noteq> Inr None"
    by (simp add: eval_store)
  have i: "0 < length ?ds" by (simp add: ds)
  have minimal: "\<forall>j < length ?ds. ?ds ! 0 \<le> ?ds ! j"
    by (simp add: ds nth_Cons split: nat.split)
  have first: "\<forall>j < (0::nat). ?ds ! j \<noteq> ?ds ! 0" by simp
  have within: "?ds ! 0 \<le> 3" by (simp add: ds)
  show ?thesis
    using tie_break_first[OF c i minimal first within]
    by (simp add: eval_store eval_match)
qed

text \<open>
  Claim C1, on a gallery in which id 1 has an embedding and no record. The loader keeps
  both embeddings and collects one name, so the name lists are shorter than the gallery:
  a probe equal to the embedding of id 1, at distance 0, is answered with the record of
  id 2, and a probe equal to the embedding of id 2 raises \<^verbatim>\<open>IndexError\<close>.
\<close>

theorem missing_record_shifts_names:
  "match_face (snd (FaceRecognizer_init reliable (6 / 10)
        (DataManager_init [bob] [(1, [0, 0]), (2, [3, 4])]))) [0, 0]
     = Inr (Text ''Bob'', Text ''EE'', Num 8, 1)
   \<and> match_face (snd (FaceRecognizer_init reliable (6 / 10)
        (DataManager_init [bob] [(1, [0, 0]), (2, [3, 4])]))) [3, 4]
     = Inl IndexError"
  by (simp add: eval_store eval_match)

text \<open>
  Claim C2, on the same kind of gallery. Both entries are at distance 3 from the probe
  and the tolerance is 3. The entry that stands first is id 1; the answer is the record
  of id 2, the second entry.
\<close>

theorem tie_answered_with_second_record:
  "fst (get_all_encodings (DataManager_init [bob] [(1, [3, 0]), (2, [0, 3])])) = [[3, 0], [0, 3]]
   \<and> snd (get_all_encodings (DataManager_init [bob] [(1, [3, 0]), (2, [0, 3])])) = [1, 2]
   \<and> euclidean [3, 0] [0, 0] = 3 \<and> euclidean [0, 3] [0, 0] = 3
   \<and> get_person_by_id reliable (DataManager_init [bob] [(1, [3, 0]), (2, [0, 3])]) 2
       = Inr (Some (bob\<lparr>roll_number := Num 8, email := NaN, phone := NaN\<rparr>))
   \<and> match_face (snd (FaceRecognizer_init reliable 3
        (DataManager_init [bob] [(1, [3, 0]), (2, [0, 3])]))) [0, 0]
     = Inr (Text ''Bob'', Text ''EE'', Num 8, - 2)"
  by (simp add: eval_store eval_match)

section \<open>Properties of the frame processor\<close>

lemma match_faces_length:
  "match_faces fr encs = Inr infos \<Longrightarrow>
     length infos = length encs \<and> (\<forall>k < length encs. match_face fr (encs ! k) = Inr (infos ! k))"
proof (induction encs arbitrary: infos)
  case Nil
  then show ?case by simp
next
  case (Cons enc encs)
  from Cons.prems obtain info rest where
    info: "match_face fr enc = Inr info" and rest: "match_faces fr encs = Inr rest"
    and infos: "infos = info # rest"
    by (auto split: sum.splits)
  from Cons.IH[OF rest] show ?case
    using info infos by (auto simp: nth_Cons split: nat.splits)
qed

text \<open>
  The frame processor of \<^verbatim>\<open>recognize.py\<close>: when the embedding capability returns one
  encoding per box and no lookup raises, the overlays are as many as the detected boxes
  and in their order, each box is the detected box with every coordinate times 4, and
  each is labelled with the result of matching its own face.
\<close>

theorem frame_processor_pairs:
  assumes contract: "length (encs_of frame (locs_of frame)) = length (locs_of frame)"
    and ok: "recognize_faces_in_frame locs_of encs_of fr frame = Inr (face_locations, face_info)"
  shows "length (draw_face_info face_locations face_info) = length (locs_of frame)
       \<and> map fst (draw_face_info face_locations face_info) = map scale_up (locs_of frame)
       \<and> (\<forall>k < length (locs_of frame).
            match_face fr (encs_of frame (locs_of frame) ! k)
              = Inr (snd (draw_face_info face_locations face_info ! k)))
       \<and> scale_up (10, 20, 30, 40) = (40, 80, 120, 160)"
proof -
  from ok have locs: "face_locations = locs_of frame"
    and m: "match_faces fr (encs_of frame (locs_of frame)) = Inr face_info"
    by (auto simp: recognize_faces_in_frame_def Let_def split: sum.splits)
  from match_faces_length[OF m] contract
  have len: "length face_info = length (locs_of frame)"
    and each: "\<forall>k < length (locs_of frame).
        match_face fr (encs_of frame (locs_of frame) ! k) = Inr (face_info ! k)"
    by auto
  show ?thesis using len each by (simp add: draw_face_info_def locs)
qed

text \<open>
  Claim C3, on \<^verbatim>\<open>web_deploy.py\<close>. With two faces in the frame, the first enrolled and
  the second not, \<^verbatim>\<open>recognize_faces_in_frame\<close> draws four overlays: both boxes with the
  first face's name, then both boxes with the second face's name. The boxes are scaled
  by 4, but no box is paired with its own face's result alone.
\<close>

theorem web_draws_every_box_for_every_face:
  "web_recognize_faces_in_frame two_boxes two_faces reliable
       (DataManager_init [ann] [(1, [0, 0])]) ()
     = Some [((40, 80, 120, 160), Text ''Ann''), ((200, 240, 280, 320), Text ''Ann''),
             ((40, 80, 120, 160), Text ''Unknown Person''),
             ((200, 240, 280, 320), Text ''Unknown Person'')]"
  by (simp add: web_recognize_faces_in_frame_def web_name_def two_boxes_def two_faces_def
      eval_store compare_faces_def face_distance_def euclidean_def list_get_def Let_def)

theorem frame_processor_pairs_witness:
  "draw_face_info (two_boxes ()) [(Text ''Ann'', Text ''CS'', Num 7, 1), unknown_person]
     = [((40, 80, 120, 160), (Text ''Ann'', Text ''CS'', Num 7, 1)),
        ((200, 240, 280, 320), unknown_person)]"
proof -
  let ?fr = "snd (FaceRecognizer_init reliable (6 / 10) (DataManager_init [ann] [(1, [0, 0])]))"
  have contract: "length (two_faces () (two_boxes ())) = length (two_boxes ())"
    by (simp add: two_boxes_def two_faces_def)
  have ok: "recognize_faces_in_frame two_boxes two_faces ?fr ()
      = Inr (two_boxes (), [(Text ''Ann'', Text ''CS'', Num 7, 1), unknown_person])"
    by (simp add: recognize_faces_in_frame_def two_boxes_def two_faces_def eval_store eval_match)
  show ?thesis
    using frame_processor_pairs[OF contract ok]
    by (simp add: draw_face_info_def two_boxes_def)
qed

section \<open>Storage failures and loading\<close>

text \<open>
  Claim C6, on \<^verbatim>\<open>simple_data_manager.py\<close>. When writing the pickle raises,
  \<^verbatim>\<open>_save_encodings\<close> prints the error and returns, so \<^verbatim>\<open>add_person\<close> returns the new id
  as after a success: the record is in the CSV file and the embedding is not on disk.
\<close>

theorem simple_add_person_claims_success:
  "simple_add_person (\<lambda>k. k = 3) (DataManager_init [] []) ann [0, 0]
     = (1, \<lparr>csv = [ann], pkl = [], encodings = [(1, [0, 0])]\<rparr>)"
  by (simp add: simple_add_person_def simple_get_next_id_def simple_save_encodings_def
      read_csv_def DataManager_init_def ann_def)

text \<open>
  \<^verbatim>\<open>DataManager.add_person\<close> raises whenever one of its four storage operations raises,
  and when it returns an id both the record and the embedding were written.
\<close>

theorem add_person_raises:
  "(io 0 \<or> io 1 \<or> io 2 \<or> io 3 \<longrightarrow> fst (add_person io dm r e) = Inl IOError)
   \<and> (fst (add_person io dm r e) = Inr i \<longrightarrow>
        r\<lparr>id' := i\<rparr> \<in> set (csv (snd (add_person io dm r e)))
        \<and> (i, e) \<in> set (pkl (snd (add_person io dm r e))))"
  by (auto simp: add_person_def get_next_id_eq read_csv_def Let_def dict_set_mem)

theorem add_person_raises_witness:
  "fst (add_person (\<lambda>k. k = 3) (DataManager_init [] []) ann [0, 0]) = Inl IOError
   \<and> fst (add_person reliable (DataManager_init [] []) ann [0, 0]) = Inr 1
   \<and> pkl (snd (add_person reliable (DataManager_init [] []) ann [0, 0])) = [(1, [0, 0])]"
  using add_person_raises[of "\<lambda>k. k = 3" "DataManager_init [] []" ann "[0, 0]" 1]
    add_person_raises[of reliable "DataManager_init [] []" ann "[0, 0]" 1]
  by (simp add: add_person_def get_next_id_def read_csv_def DataManager_init_def reliable_def)

text \<open>
  Claim C10. In \<^verbatim>\<open>SimpleDataManager\<close>, when the read of \<^verbatim>\<open>get_next_id\<close> raises, the next
  id is 1 whatever is enrolled; if the rest of \<^verbatim>\<open>add_person\<close> then succeeds and a
  person with id 1 exists, the new person gets that same id and the ids of the record
  store are no longer distinct. When its own read or the write of the CSV file raises,
  \<^verbatim>\<open>add_person\<close> returns -1 and changes nothing.
\<close>

theorem simple_next_id_restarts_at_one:
  "(io 0 \<longrightarrow> simple_get_next_id io dm = 1)
   \<and> (io 0 \<and> \<not> io 1 \<and> \<not> io 2 \<and> row \<in> set (csv dm) \<and> id' row = 1 \<longrightarrow>
        fst (simple_add_person io dm r e) = id' row
        \<and> \<not> distinct (map id' (csv (snd (simple_add_person io dm r e)))))
   \<and> (io 1 \<or> io 2 \<longrightarrow> simple_add_person io dm r e = (- 1, dm))"
proof -
  have a: "io 0 \<longrightarrow> simple_get_next_id io dm = 1"
    by (simp add: simple_get_next_id_eq)
  have c: "io 1 \<or> io 2 \<longrightarrow> simple_add_person io dm r e = (- 1, dm)"
    by (auto simp: simple_add_person_def read_csv_def Let_def)
  have b: "io 0 \<and> \<not> io 1 \<and> \<not> io 2 \<and> row \<in> set (csv dm) \<and> id' row = 1 \<longrightarrow>
        fst (simple_add_person io dm r e) = id' row
        \<and> \<not> distinct (map id' (csv (snd (simple_add_person io dm r e))))"
  proof
    assume h: "io 0 \<and> \<not> io 1 \<and> \<not> io 2 \<and> row \<in> set (csv dm) \<and> id' row = 1"
    then have ids: "map id' (csv (snd (simple_add_person io dm r e))) = map id' (csv dm) @ [1]"
      by (simp add: simple_add_person_def simple_get_next_id_eq simple_save_encodings_def
          read_csv_def Let_def reread_ids)
    have "1 \<in> set (map id' (csv dm))" using h by force
    then have "\<not> distinct (map id' (csv dm) @ [1])" by simp
    moreover have "fst (simple_add_person io dm r e) = id' row"
      using h by (simp add: simple_add_person_def simple_get_next_id_eq read_csv_def Let_def)
    ultimately show "fst (simple_add_person io dm r e) = id' row
        \<and> \<not> distinct (map id' (csv (snd (simple_add_person io dm r e))))"
      using ids by simp
  qed
  from a b c show ?thesis by blast
qed

theorem simple_next_id_restarts_at_one_witness:
  "simple_get_next_id (\<lambda>k. k = 0) (DataManager_init [ann, bob] []) = 1
   \<and> fst (simple_add_person (\<lambda>k. k = 0) (DataManager_init [ann, bob] []) bob [0, 0]) = 1
   \<and> map id' (csv (snd (simple_add_person (\<lambda>k. k = 0) (DataManager_init [ann, bob] []) bob [0, 0])))
       = [1, 2, 1]
   \<and> simple_add_person (\<lambda>k. k = 2) (DataManager_init [ann, bob] []) bob [0, 0]
       = (- 1, DataManager_init [ann, bob] [])"
  using simple_next_id_restarts_at_one[of "\<lambda>k. k = 0" "DataManager_init [ann, bob] []" ann bob "[0, 0]"]
    simple_next_id_restarts_at_one[of "\<lambda>k. k = 2" "DataManager_init [ann, bob] []" ann bob "[0, 0]"]
  by (simp add: simple_add_person_def simple_get_next_id_eq simple_save_encodings_def
      read_csv_def DataManager_init_def reread_ids ann_fields bob_fields)

lemma load_details_error:
  "fst (load_details io k ids fr) = (if \<exists>j < length ids. io (k + j) then Some IOError else None)"
proof (induction ids arbitrary: k fr)
  case Nil
  then show ?case by simp
next
  case (Cons i ids)
  have shift: "(\<exists>j < length (i # ids). io (k + j)) \<longleftrightarrow> io k \<or> (\<exists>j < length ids. io (Suc k + j))"
  proof
    assume "\<exists>j < length (i # ids). io (k + j)"
    then obtain j where j: "j < length (i # ids)" "io (k + j)" by blast
    then show "io k \<or> (\<exists>j < length ids. io (Suc k + j))"
      by (cases j) auto
  next
    assume "io k \<or> (\<exists>j < length ids. io (Suc k + j))"
    then show "\<exists>j < length (i # ids). io (k + j)"
    proof
      assume "io k"
      then show ?thesis by (intro exI[of _ 0]) simp
    next
      assume "\<exists>j < length ids. io (Suc k + j)"
      then obtain j where "j < length ids" "io (Suc k + j)" by blast
      then show ?thesis by (intro exI[of _ "Suc j"]) simp
    qed
  qed
  show ?case
  proof (cases "io k")
    case True
    then show ?thesis
      unfolding shift by (simp add: get_person_by_id_def read_csv_def)
  next
    case False
    then show ?thesis
      unfolding shift
      by (simp add: get_person_by_id_def read_csv_def Cons.IH split: option.splits)
  qed
qed

lemma load_details_keeps:
  "known_encodings (snd (load_details io k ids fr)) = known_encodings fr"
  by (induction ids arbitrary: k fr) (auto split: sum.splits option.splits)

text \<open>
  Claim C7, as amended. \<^verbatim>\<open>load_known_faces\<close> prints one message, which tells that no
  faces are registered, that a read of the file raised, or how many embeddings were
  loaded. The message depends on the stored embeddings and on the reads that raise, and
  not on which ids have a record: no inconsistency between the two stores is reported.
\<close>

theorem loader_reports_only_the_count:
  "fst (load_known_faces io fr) =
     (if encodings (data_manager fr) = [] then [NoRegisteredFaces]
      else if \<exists>k < length (encodings (data_manager fr)). io k then [ErrorLoadingFaces]
      else [LoadedFaces (length (encodings (data_manager fr)))])"
proof -
  let ?fr1 = "fr\<lparr>known_encodings := map snd (encodings (data_manager fr)),
                 known_person_ids := map fst (encodings (data_manager fr))\<rparr>"
  let ?ids = "map fst (encodings (data_manager fr))"
  have e: "fst (load_details io 0 ?ids ?fr1)
      = (if \<exists>k < length (encodings (data_manager fr)). io k then Some IOError else None)"
    using load_details_error[of io 0 ?ids ?fr1] by simp
  have k: "known_encodings (snd (load_details io 0 ?ids ?fr1))
      = map snd (encodings (data_manager fr))"
    by (simp add: load_details_keeps)
  show ?thesis
  proof (cases "load_details io 0 ?ids ?fr1")
    case (Pair err fr2)
    with e k show ?thesis
      by (cases err)
        (auto simp: load_known_faces_def get_all_encodings_def Let_def split: if_splits)
  qed
qed

text \<open>
  Claim C7 as stated fails: id 1 has an embedding and no record, and the loader prints
  what it prints for the consistent store, \<open>LoadedFaces 2\<close>; a record without
  embedding (id 1 in the last store) is not mentioned either.
\<close>

theorem loader_drops_silently:
  "get_person_by_id reliable (DataManager_init [bob] [(1, [0, 0]), (2, [3, 4])]) 1 = Inr None
   \<and> fst (FaceRecognizer_init reliable (6 / 10) (DataManager_init [bob] [(1, [0, 0]), (2, [3, 4])]))
       = [LoadedFaces 2]
   \<and> fst (FaceRecognizer_init reliable (6 / 10) (DataManager_init [ann, bob] [(1, [0, 0]), (2, [3, 4])]))
       = [LoadedFaces 2]
   \<and> known_person_ids (snd (FaceRecognizer_init reliable (6 / 10)
        (DataManager_init [bob] [(1, [0, 0]), (2, [3, 4])]))) = [1, 2]
   \<and> known_names (snd (FaceRecognizer_init reliable (6 / 10)
        (DataManager_init [bob] [(1, [0, 0]), (2, [3, 4])]))) = [Text ''Bob'']
   \<and> fst (FaceRecognizer_init reliable (6 / 10) (DataManager_init [ann, bob] [(2, [3, 4])]))
       = [LoadedFaces 1]
   \<and> known_person_ids (snd (FaceRecognizer_init reliable (6 / 10)
        (DataManager_init [ann, bob] [(2, [3, 4])]))) = [2]"
  by (simp add: eval_store eval_match)

section \<open>Properties of the stream controller\<close>

lemma recognition_loop_idle:
  "recognition_loop fuel no_boxes no_faces ios idle s = None"
proof (induction fuel arbitrary: s)
  case 0
  then show ?case by simp
next
  case (Suc fuel)
  then show ?case
    by (simp add: idle_def recognize_faces_in_frame_def no_boxes_def no_faces_def
        draw_face_info_def Let_def)
qed

lemma generate_frames_runs_on:
  "generate_frames fuel locs_of encs_of ios dm env k yielded = None"
  by (induction fuel arbitrary: k yielded) (auto simp: Let_def split: grab.splits)

text \<open>
  Claim C9 as stated fails: with a camera that keeps delivering frames and no key
  pressed, \<^verbatim>\<open>run_recognition\<close> is still running after any number of iterations.
\<close>

theorem recognition_loop_unbounded:
  "\<forall>fuel. run_recognition fuel no_boxes no_faces (\<lambda>i. True) (\<lambda>k. reliable) idle ann_recognizer
      = None"
proof -
  have "known_encodings ann_recognizer \<noteq> []"
    by (simp add: ann_recognizer_def eval_store eval_match)
  then show ?thesis
    by (simp add: run_recognition_def VideoCapture_def recognition_loop_idle)
qed

lemma recognition_loop_step:
  assumes tick: "env (frame_count s) = Frame frame key"
    and key: "key \<noteq> 113"
    and step: "(if frame_count s mod 2 = 0
                 then (case recognize_faces_in_frame locs_of encs_of (recognizer s) frame of
                         Inl err \<Rightarrow> Inl err
                       | Inr (face_locations, face_info) \<Rightarrow>
                           Inr (draw_face_info face_locations face_info))
                 else Inr []) = Inr overlay"
  shows "\<exists>s1. frame_count s1 = Suc (frame_count s) \<and>
           recognition_loop (Suc fuel) locs_of encs_of ios env s
             = recognition_loop fuel locs_of encs_of ios env s1"
proof -
  let ?s1 = "s\<lparr>frame_count := frame_count s + 1, shown := shown s @ [overlay]\<rparr>"
  let ?s2 = "if key = 114
             then ?s1\<lparr>recognizer := snd (load_known_faces (ios (frame_count s)) (recognizer ?s1))\<rparr>
             else if key = 116
             then ?s1\<lparr>recognizer := (recognizer ?s1)
                     \<lparr>tolerance := (if tolerance (recognizer ?s1) = 6 / 10 then 9 / 10 else 6 / 10)\<rparr>\<rparr>
             else ?s1"
  have "frame_count ?s2 = Suc (frame_count s)" by simp
  moreover have "recognition_loop (Suc fuel) locs_of encs_of ios env s
      = recognition_loop fuel locs_of encs_of ios env ?s2"
    unfolding recognition_loop.simps tick tick.case step sum.case Let_def
    using key by simp
  ultimately show ?thesis by blast
qed

lemma recognition_loop_stops_only_on:
  "recognition_loop fuel locs_of encs_of ios env s = Some (out, s') \<Longrightarrow>
     (\<exists>k. frame_count s \<le> k \<and> k < frame_count s + fuel \<and> stop_tick (env k))
     \<or> (\<exists>err. out = Crashed err)"
proof (induction fuel arbitrary: s)
  case 0
  then show ?case by simp
next
  case (Suc fuel)
  show ?case
  proof (cases "stop_tick (env (frame_count s))")
    case True
    then show ?thesis by (intro disjI1 exI[of _ "frame_count s"]) simp
  next
    case False
    then obtain frame key where tick: "env (frame_count s) = Frame frame key" and key: "key \<noteq> 113"
      by (cases "env (frame_count s)") auto
    let ?step = "if frame_count s mod 2 = 0
                 then (case recognize_faces_in_frame locs_of encs_of (recognizer s) frame of
                         Inl err \<Rightarrow> Inl err
                       | Inr (face_locations, face_info) \<Rightarrow>
                           Inr (draw_face_info face_locations face_info))
                 else Inr []"
    show ?thesis
    proof (cases ?step)
      case (Inl err)
      have "recognition_loop (Suc fuel) locs_of encs_of ios env s = Some (Crashed err, s)"
        unfolding recognition_loop.simps tick tick.case Inl sum.case by simp
      with Suc.prems show ?thesis by simp
    next
      case (Inr overlay)
      from recognition_loop_step[where env = env and s = s and fuel = fuel and ios = ios, OF tick key Inr]
      obtain s1 where s1: "frame_count s1 = Suc (frame_count s)"
        and rec: "recognition_loop fuel locs_of encs_of ios env s1 = Some (out, s')"
        using Suc.prems by auto
      from Suc.IH[OF rec] show ?thesis
      proof
        assume "\<exists>k. frame_count s1 \<le> k \<and> k < frame_count s1 + fuel \<and> stop_tick (env k)"
        then obtain k where "frame_count s1 \<le> k" "k < frame_count s1 + fuel" "stop_tick (env k)"
          by blast
        then have "frame_count s \<le> k \<and> k < frame_count s + Suc fuel \<and> stop_tick (env k)"
          using s1 by simp
        then show ?thesis by blast
      next
        assume "\<exists>err. out = Crashed err"
        then show ?thesis by blast
      qed
    qed
  qed
qed

lemma recognition_loop_stops_at:
  "frame_count s \<le> k \<Longrightarrow> stop_tick (env k) \<Longrightarrow>
     recognition_loop (Suc (k - frame_count s)) locs_of encs_of ios env s \<noteq> None"
proof (induction "k - frame_count s" arbitrary: s)
  case 0
  then have k: "k = frame_count s" by simp
  show ?case
  proof (cases "env (frame_count s)")
    case (Frame frame key)
    with 0 k have "key = 113" by simp
    with Frame k show ?thesis by (auto simp: Let_def split: sum.splits)
  qed (use k in simp_all)
next
  case (Suc n)
  show ?case
  proof (cases "stop_tick (env (frame_count s))")
    case True
    then show ?thesis
      by (cases "env (frame_count s)") (auto simp: Let_def split: sum.splits)
  next
    case False
    then obtain frame key where tick: "env (frame_count s) = Frame frame key" and key: "key \<noteq> 113"
      by (cases "env (frame_count s)") auto
    let ?step = "if frame_count s mod 2 = 0
                 then (case recognize_faces_in_frame locs_of encs_of (recognizer s) frame of
                         Inl err \<Rightarrow> Inl err
                       | Inr (face_locations, face_info) \<Rightarrow>
                           Inr (draw_face_info face_locations face_info))
                 else Inr []"
    show ?thesis
    proof (cases ?step)
      case (Inl err)
      have "recognition_loop (Suc (k - frame_count s)) locs_of encs_of ios env s
          = Some (Crashed err, s)"
        unfolding recognition_loop.simps tick tick.case Inl sum.case by simp
      then show ?thesis by simp
    next
      case (Inr overlay)
      from Suc.hyps(2) have fuel: "k - frame_count s = Suc n" by simp
      from recognition_loop_step[where env = env and s = s and fuel = "Suc n" and ios = ios, OF tick key Inr]
      obtain s1 where s1: "frame_count s1 = Suc (frame_count s)"
        and rec: "recognition_loop (Suc (Suc n)) locs_of encs_of ios env s
            = recognition_loop (Suc n) locs_of encs_of ios env s1"
        by blast
      have "n = k - frame_count s1" using fuel s1 by simp
      moreover have "frame_count s1 \<le> k" using fuel s1 by simp
      ultimately have "recognition_loop (Suc (k - frame_count s1)) locs_of encs_of ios env s1 \<noteq> None"
        using Suc.prems(2) by (intro Suc.hyps(1)) auto
      moreover have "Suc (k - frame_count s1) = Suc n" using fuel s1 by simp
      moreover have "Suc (k - frame_count s) = Suc (Suc n)" using fuel by simp
      ultimately show ?thesis using rec by (simp del: recognition_loop.simps)
    qed
  qed
qed

lemma capture_loop_reads_below_max:
  "(\<forall>k. a \<le> k \<and> k < max_attempts \<longrightarrow> env k = env' k) \<Longrightarrow>
     capture_loop locs_of encs_of env a = capture_loop locs_of encs_of env' a"
proof (induction "max_attempts - a" arbitrary: a)
  case 0
  then have "\<not> a < max_attempts" by simp
  then show ?case by simp
next
  case (Suc n)
  then have below: "a < max_attempts" by simp
  with Suc.prems have same: "env' a = env a" by simp
  have "n = max_attempts - (a + 1)" using Suc.hyps(2) by simp
  moreover have "\<forall>k. a + 1 \<le> k \<and> k < max_attempts \<longrightarrow> env k = env' k"
    using Suc.prems by simp
  ultimately have rec: "capture_loop locs_of encs_of env' (a + 1)
      = capture_loop locs_of encs_of env (a + 1)"
    using Suc.hyps(1) by simp
  show ?case
    by (subst (1 2) capture_loop.simps) (simp only: same rec)
qed

lemma capture_from_webcam_held:
  "snd (capture_from_webcam locs_of encs_of opens cam i held) = held"
  by (simp add: capture_from_webcam_def VideoCapture_def release_def)

lemma try_cameras_held:
  "snd (try_cameras locs_of encs_of opens cam indices held) = held"
proof (induction indices)
  case Nil
  then show ?case by simp
next
  case (Cons i indices)
  obtain result held' where c: "capture_from_webcam locs_of encs_of opens cam i held = (result, held')"
    by (cases "capture_from_webcam locs_of encs_of opens cam i held")
  with capture_from_webcam_held[of locs_of encs_of opens cam i held] have "held' = held" by simp
  with c Cons show ?case by (cases result) simp_all
qed

text \<open>
  Claim C9, as amended. The recognition loop has no iteration bound: it returns only at
  a failed read, an interrupt or the key \<^verbatim>\<open>q\<close>, or when the frame processor raises, and
  it does return once such a tick arrives. \<^verbatim>\<open>generate_frames\<close> never returns. Only the
  enrolment capture loop is bounded: it is total and reads no tick beyond the first
  \<open>max_attempts\<close>.
\<close>

theorem loops_end_only_on_events:
  "(recognition_loop fuel locs_of encs_of ios env s = Some (out, s') \<longrightarrow>
      (\<exists>k. frame_count s \<le> k \<and> k < frame_count s + fuel \<and> stop_tick (env k))
      \<or> (\<exists>err. out = Crashed err))
   \<and> (frame_count s \<le> k \<and> stop_tick (env k) \<longrightarrow>
        recognition_loop (Suc (k - frame_count s)) locs_of encs_of ios env s \<noteq> None)
   \<and> generate_frames fuel locs_of encs_of ios dm genv j yielded = None
   \<and> ((\<forall>k < max_attempts. cenv k = cenv' k) \<longrightarrow>
        capture_loop locs_of encs_of cenv 0 = capture_loop locs_of encs_of cenv' 0)"
  using recognition_loop_stops_only_on[of fuel locs_of encs_of ios env s out s']
    recognition_loop_stops_at[of s k env locs_of encs_of ios]
    generate_frames_runs_on[of fuel locs_of encs_of ios dm genv j yielded]
    capture_loop_reads_below_max[of 0 cenv cenv' locs_of encs_of]
  by blast

theorem loops_end_only_on_events_witness:
  "recognition_loop (Suc (Suc (Suc 0))) no_boxes no_faces (\<lambda>k. reliable) quit_at_2
       \<lparr>recognizer = ann_recognizer, frame_count = 0, shown = []\<rparr>
     = Some (Quit, \<lparr>recognizer = ann_recognizer, frame_count = 3, shown = [[], [], []]\<rparr>)
   \<and> stop_tick (quit_at_2 2)
   \<and> capture_loop no_boxes no_faces idle 0
     = capture_loop no_boxes no_faces (\<lambda>k. if k < 100 then idle k else ReadFailed) 0"
proof -
  let ?s = "\<lparr>recognizer = ann_recognizer, frame_count = 0, shown = []\<rparr>"
  let ?s' = "\<lparr>recognizer = ann_recognizer, frame_count = 3, shown = [[], [], []]\<rparr>"
  have run: "recognition_loop (Suc (Suc (Suc 0))) no_boxes no_faces (\<lambda>k. reliable) quit_at_2 ?s
      = Some (Quit, ?s')"
    by (simp add: quit_at_2_def recognize_faces_in_frame_def no_boxes_def no_faces_def
        draw_face_info_def Let_def)
  have stop: "stop_tick (quit_at_2 2)" by (simp add: quit_at_2_def)
  have same: "\<forall>k < max_attempts. idle k = (if k < 100 then idle k else ReadFailed)"
    by (simp add: max_attempts_def)
  show ?thesis
    using loops_end_only_on_events[where fuel = "Suc (Suc (Suc 0))" and locs_of = no_boxes
        and encs_of = no_faces and ios = "\<lambda>k. reliable" and env = quit_at_2 and s = ?s
        and out = Quit and s' = ?s' and k = 2 and cenv = idle
        and cenv' = "\<lambda>k. if k < 100 then idle k else ReadFailed"]
      run stop same
    by simp
qed

text \<open>
  What the two ways of opening the camera do. \<^verbatim>\<open>run_recognition\<close> opens device 0 only;
  when it does not open, it reports a camera error and returns holding no device. The
  enrolment capture of \<^verbatim>\<open>register.py\<close> tries the devices 0, 1, 2 in this order, returns
  the first capture that is not empty-handed, gives up only after all three, and holds
  no device afterwards; a device that does not open counts as a failed capture.
\<close>

theorem camera_fallback:
  "(known_encodings fr \<noteq> [] \<and> \<not> opens 0 \<longrightarrow>
      run_recognition fuel locs_of encs_of opens ios env fr = Some (CameraError, []))
   \<and> capture_face_encoding locs_of encs_of opens cam =
       (case fst (capture_from_webcam locs_of encs_of opens cam 0 []) of
          NoCapture \<Rightarrow>
            (case fst (capture_from_webcam locs_of encs_of opens cam 1 []) of
               NoCapture \<Rightarrow> fst (capture_from_webcam locs_of encs_of opens cam 2 [])
             | result \<Rightarrow> result)
        | result \<Rightarrow> result, [])
   \<and> (\<not> opens i \<longrightarrow> capture_from_webcam locs_of encs_of opens cam i held = (NoCapture, held))"
proof -
  have held: "\<And>i. snd (capture_from_webcam locs_of encs_of opens cam i []) = []"
    by (rule capture_from_webcam_held)
  have "capture_face_encoding locs_of encs_of opens cam =
       (case fst (capture_from_webcam locs_of encs_of opens cam 0 []) of
          NoCapture \<Rightarrow>
            (case fst (capture_from_webcam locs_of encs_of opens cam 1 []) of
               NoCapture \<Rightarrow> fst (capture_from_webcam locs_of encs_of opens cam 2 [])
             | result \<Rightarrow> result)
        | result \<Rightarrow> result, [])"
    using held[of 0] held[of 1] held[of 2]
    by (auto simp: capture_face_encoding_def split: prod.splits capture.splits)
  then show ?thesis
    by (simp add: run_recognition_def capture_from_webcam_def VideoCapture_def release_def)
qed

text \<open>
  Claim C8, with device 0 closed and device 1 open. \<^verbatim>\<open>run_recognition\<close> reports the
  camera error without trying device 1, on which the enrolment capture of
  \<^verbatim>\<open>register.py\<close> succeeds with the same cameras.
\<close>

theorem recognition_tries_only_camera_0:
  "run_recognition 1 two_boxes two_faces (\<lambda>i. i = 1) (\<lambda>k. reliable) idle ann_recognizer
     = Some (CameraError, [])
   \<and> capture_face_encoding two_boxes two_faces (\<lambda>i. i = 1) space_pressed
     = (Captured [0, 0], [])"
proof -
  have "known_encodings ann_recognizer \<noteq> []"
    by (simp add: ann_recognizer_def eval_store eval_match)
  then show ?thesis
    by (simp add: run_recognition_def capture_face_encoding_def capture_from_webcam_def
        VideoCapture_def release_def space_pressed_def two_boxes_def two_faces_def
        max_attempts_def Let_def)
qed

theorem camera_fallback_witness:
  "run_recognition 1 two_boxes two_faces (\<lambda>i. i = 2) (\<lambda>k. reliable) idle ann_recognizer
     = Some (CameraError, [])
   \<and> capture_face_encoding two_boxes two_faces (\<lambda>i. i = 2) space_pressed
     = (Captured [0, 0], [])
   \<and> capture_from_webcam two_boxes two_faces (\<lambda>i. i = 2) space_pressed 1 [] = (NoCapture, [])"
proof -
  have "known_encodings ann_recognizer \<noteq> []"
    by (simp add: ann_recognizer_def eval_store eval_match)
  then show ?thesis
    using camera_fallback[where fr = ann_recognizer and opens = "\<lambda>i. i = 2" and fuel = 1
        and locs_of = two_boxes and encs_of = two_faces and ios = "\<lambda>k. reliable" and env = idle
        and cam = space_pressed and i = 1 and held = "[]"]
    by (simp add: capture_from_webcam_def VideoCapture_def release_def space_pressed_def
        two_boxes_def two_faces_def max_attempts_def Let_def)
qed

end
